theory Spec2Isabelle
  imports Main "HOL-Library.AList" "HOL-Library.Sublist"
begin

section \<open>The placeholder training job of \<open>train.py\<close>\<close>

text \<open>
  \<open>train.py\<close> has two parts: the function \<open>train(args)\<close>, which lists the training
  directory, sleeps through five epochs and writes the file \<open>model.dummy\<close>, and the
  entry point, which reads two environment variables, parses the command line and calls
  \<open>train\<close>. Both act on the world outside the program, so the embedding carries an
  explicit world: a file system (a tree of directories and regular files), the working
  directory of the process, and the trace of what the job printed, slept and asked of the
  operating system, in program order. Every exception of the source is a value of type
  \<open>error\<close>; a function that can raise returns \<open>error + 'a\<close> together with the world
  it leaves behind.

  The operating system and the Python library are not part of the repository. They are
  modelled here as far as \<open>train.py\<close> uses them, after CPython 3.11 on POSIX:
  \<open>posixpath.split\<close>, \<open>posixpath.dirname\<close>, \<open>os.path.exists\<close>, \<open>os.path.isdir\<close>,
  \<open>os.makedirs\<close> are transcribed from the library's Python source; \<open>os.listdir\<close>,
  \<open>os.mkdir\<close> and \<open>open(_, "w")\<close> follow POSIX path resolution. Outside the model are
  permissions, symbolic links, full disks, signals and other processes that change the
  file system while the job runs.
\<close>

subsection \<open>Path names as strings: \<open>posixpath\<close>\<close>

definition sep :: char where
  "sep = CHR ''/''"

text \<open>\<open>p.rstrip('/')\<close>\<close>

definition rstrip_sep :: "string \<Rightarrow> string" where
  "rstrip_sep p = rev (dropWhile (\<lambda>c. c = sep) (rev p))"

text \<open>\<open>i = p.rfind('/') + 1\<close>, then \<open>p[:i]\<close> and \<open>p[i:]\<close>.\<close>

definition upto_last_sep :: "string \<Rightarrow> string" where
  "upto_last_sep p = rev (dropWhile (\<lambda>c. c \<noteq> sep) (rev p))"

definition after_last_sep :: "string \<Rightarrow> string" where
  "after_last_sep p = rev (takeWhile (\<lambda>c. c \<noteq> sep) (rev p))"

text \<open>
  \<open>posixpath.dirname\<close>: the part up to the last slash, with its trailing slashes removed
  unless it consists of slashes only.
\<close>

definition dirname :: "string \<Rightarrow> string" where
  "dirname p =
     (let head = upto_last_sep p in
      if head \<noteq> [] \<and> head \<noteq> replicate (length head) sep then rstrip_sep head else head)"

text \<open>\<open>posixpath.split\<close>: \<open>(dirname p, p[i:])\<close>.\<close>

definition path_split :: "string \<Rightarrow> string \<times> string" where
  "path_split p = (dirname p, after_last_sep p)"

text \<open>The components of a path name: the pieces between slashes, empty ones included.\<close>

fun components :: "string \<Rightarrow> string list" where
  "components [] = [[]]"
| "components (c # cs) =
     (if c = sep then [] # components cs
      else (case components cs of [] \<Rightarrow> [[c]] | x # xs \<Rightarrow> (c # x) # xs))"

subsection \<open>The file system\<close>

text \<open>
  A node is a regular file with its content or a directory with its entries. The entries
  are kept in the order in which the operating system enumerates them, which is the order
  \<open>os.listdir\<close> returns (the library promises no particular order). A location in the
  tree is the list of entry names that leads to it from the root.
\<close>

datatype node = File string | Dir "(string \<times> node) list"

type_synonym location = "string list"

fun lookup :: "node \<Rightarrow> location \<Rightarrow> node option" where
  "lookup n [] = Some n"
| "lookup (File c) (x # xs) = None"
| "lookup (Dir es) (x # xs) = (case map_of es x of None \<Rightarrow> None | Some m \<Rightarrow> lookup m xs)"

text \<open>
  \<open>put n l new\<close> stores \<open>new\<close> at location \<open>l\<close>: it replaces the node that is there, or adds
  an entry to the parent directory. Where the parent is missing or is a file nothing
  changes; the operations below only call it under an existing directory.
\<close>

fun put :: "node \<Rightarrow> location \<Rightarrow> node \<Rightarrow> node" where
  "put n [] new = new"
| "put (File c) (x # xs) new = File c"
| "put (Dir es) (x # xs) new =
     (case map_of es x of
        None \<Rightarrow> if xs = [] then Dir (AList.update x new es) else Dir es
      | Some m \<Rightarrow> Dir (AList.update x (put m xs new) es))"

definition is_dir :: "node \<Rightarrow> location \<Rightarrow> bool" where
  "is_dir fs l = (case lookup fs l of Some (Dir es) \<Rightarrow> True | _ \<Rightarrow> False)"

text \<open>A node without entries below it: a regular file or an empty directory.\<close>

definition leaf :: "node \<Rightarrow> bool" where
  "leaf n = (case n of File c \<Rightarrow> True | Dir es \<Rightarrow> es = [])"

datatype error =
    FileNotFoundError
  | NotADirectoryError
  | FileExistsError
  | IsADirectoryError
  | KeyError string
  | SystemExit

text \<open>
  Path resolution. \<open>walk fs cur cs\<close> follows the components \<open>cs\<close> from the location
  \<open>cur\<close>. Each step is taken from an existing directory (\<open>ENOENT\<close>, \<open>ENOTDIR\<close>
  otherwise); an empty component and \<open>.\<close> stay, \<open>..\<close> goes to the parent (the root is its
  own parent), a name goes down. The location reached by the last name need not exist.
\<close>

fun walk :: "node \<Rightarrow> location \<Rightarrow> string list \<Rightarrow> error + location" where
  "walk fs cur [] = Inr cur"
| "walk fs cur (c # cs) =
     (case lookup fs cur of
        None \<Rightarrow> Inl FileNotFoundError
      | Some (File _) \<Rightarrow> Inl NotADirectoryError
      | Some (Dir _) \<Rightarrow>
          if c = [] \<or> c = ''.'' then walk fs cur cs
          else if c = ''..'' then walk fs (butlast cur) cs
          else walk fs (cur @ [c]) cs)"

text \<open>
  A path name is absolute when it starts with a slash and relative to the working
  directory \<open>wd\<close> otherwise; the empty path name resolves to nothing.
\<close>

definition resolve :: "location \<Rightarrow> node \<Rightarrow> string \<Rightarrow> error + location" where
  "resolve wd fs p =
     (if p = [] then Inl FileNotFoundError
      else walk fs (if hd p = sep then [] else wd) (components p))"

text \<open>\<open>os.stat\<close>: the node a path name leads to.\<close>

definition stat :: "location \<Rightarrow> node \<Rightarrow> string \<Rightarrow> error + node" where
  "stat wd fs p =
     (case resolve wd fs p of
        Inl e \<Rightarrow> Inl e
      | Inr l \<Rightarrow> (case lookup fs l of None \<Rightarrow> Inl FileNotFoundError | Some n \<Rightarrow> Inr n))"

text \<open>\<open>os.path.exists\<close> and \<open>os.path.isdir\<close>: \<open>os.stat\<close> with every error read as False.\<close>

definition path_exists :: "location \<Rightarrow> node \<Rightarrow> string \<Rightarrow> bool" where
  "path_exists wd fs p = (case stat wd fs p of Inl e \<Rightarrow> False | Inr n \<Rightarrow> True)"

definition path_isdir :: "location \<Rightarrow> node \<Rightarrow> string \<Rightarrow> bool" where
  "path_isdir wd fs p = (case stat wd fs p of Inr (Dir es) \<Rightarrow> True | _ \<Rightarrow> False)"

text \<open>\<open>os.listdir\<close>: the entry names of a directory, in the order of enumeration.\<close>

definition listdir :: "location \<Rightarrow> node \<Rightarrow> string \<Rightarrow> error + string list" where
  "listdir wd fs p =
     (case stat wd fs p of
        Inl e \<Rightarrow> Inl e
      | Inr (File c) \<Rightarrow> Inl NotADirectoryError
      | Inr (Dir es) \<Rightarrow> Inr (map fst es))"

text \<open>
  \<open>os.mkdir\<close>: trailing slashes of the path name are ignored; a location that exists is
  \<open>EEXIST\<close>; a new empty directory is entered into the parent otherwise.
\<close>

definition drop_trailing_empty :: "string list \<Rightarrow> string list" where
  "drop_trailing_empty cs = rev (dropWhile (\<lambda>c. c = []) (rev cs))"

definition mkdir :: "location \<Rightarrow> node \<Rightarrow> string \<Rightarrow> (error + unit) \<times> node" where
  "mkdir wd fs p =
     (if p = [] then (Inl FileNotFoundError, fs)
      else
        (case walk fs (if hd p = sep then [] else wd) (drop_trailing_empty (components p)) of
           Inl e \<Rightarrow> (Inl e, fs)
         | Inr l \<Rightarrow>
             (case lookup fs l of
                Some n \<Rightarrow> (Inl FileExistsError, fs)
              | None \<Rightarrow> (Inr (), put fs l (Dir [])))))"

text \<open>
  \<open>os.makedirs(name, exist_ok=True)\<close>, line by line: split off the last component (a
  second time when the name ends in a slash); create the head first when it does not
  exist, passing over a \<open>FileExistsError\<close> from there; return at once when the last
  component is \<open>.\<close>; then \<open>mkdir(name)\<close>, whose error is passed over when \<open>name\<close> is a
  directory.
\<close>

definition makedirs_split :: "string \<Rightarrow> string \<times> string" where
  "makedirs_split name =
     (let (head, tail) = path_split name in
      if tail = [] then path_split head else (head, tail))"

definition mkdir_exist_ok :: "location \<Rightarrow> node \<Rightarrow> string \<Rightarrow> (error + unit) \<times> node" where
  "mkdir_exist_ok wd fs name =
     (case mkdir wd fs name of
        (Inr u, fs') \<Rightarrow> (Inr (), fs')
      | (Inl e, fs') \<Rightarrow> if \<not> path_isdir wd fs' name then (Inl e, fs') else (Inr (), fs'))"

lemma length_upto_after: "length (upto_last_sep p) + length (after_last_sep p) = length p"
proof -
  have "length (rev p) =
      length (takeWhile (\<lambda>c. c \<noteq> sep) (rev p)) + length (dropWhile (\<lambda>c. c \<noteq> sep) (rev p))"
    by (metis length_append takeWhile_dropWhile_id)
  then show ?thesis
    by (simp add: upto_last_sep_def after_last_sep_def)
qed

lemma length_rstrip_sep: "length (rstrip_sep p) \<le> length p"
  using length_dropWhile_le [of "\<lambda>c. c = sep" "rev p"] by (simp add: rstrip_sep_def)

lemma length_dirname: "length (dirname p) \<le> length (upto_last_sep p)"
  by (simp add: dirname_def Let_def length_rstrip_sep)

lemma length_path_split:
  "path_split p = (h, t) \<Longrightarrow> length h + length t \<le> length p"
  using length_upto_after [of p] length_dirname [of p] by (auto simp: path_split_def)

lemma length_makedirs_split:
  assumes "makedirs_split name = (h, t)" and "t \<noteq> []"
  shows "length h < length name"
proof -
  obtain h0 t0 where s0: "path_split name = (h0, t0)"
    by (cases "path_split name")
  show ?thesis
  proof (cases "t0 = []")
    case True
    with s0 assms have "path_split h0 = (h, t)"
      by (simp add: makedirs_split_def)
    then have "length h + length t \<le> length h0"
      by (rule length_path_split)
    moreover from s0 have "length h0 + length t0 \<le> length name"
      by (rule length_path_split)
    ultimately show ?thesis using assms(2) by (cases t) auto
  next
    case False
    with s0 assms have "h = h0" "t = t0"
      by (simp_all add: makedirs_split_def)
    with length_path_split [OF s0] assms(2) show ?thesis by (cases t) auto
  qed
qed

function makedirs :: "location \<Rightarrow> node \<Rightarrow> string \<Rightarrow> (error + unit) \<times> node" where
  "makedirs wd fs name =
     (if fst (makedirs_split name) \<noteq> [] \<and> snd (makedirs_split name) \<noteq> []
         \<and> \<not> path_exists wd fs (fst (makedirs_split name))
      then
        (case makedirs wd fs (fst (makedirs_split name)) of
           (Inl e, fs') \<Rightarrow>
             if e = FileExistsError
             then (if snd (makedirs_split name) = ''.'' then (Inr (), fs')
                   else mkdir_exist_ok wd fs' name)
             else (Inl e, fs')
         | (Inr u, fs') \<Rightarrow>
             if snd (makedirs_split name) = ''.'' then (Inr (), fs')
             else mkdir_exist_ok wd fs' name)
      else mkdir_exist_ok wd fs name)"
  by pat_completeness auto
termination
proof (relation "measure (\<lambda>(wd, fs, name). length name)")
  show "wf (measure (\<lambda>(wd, fs, name). length name))" by simp
next
  fix wd :: location and fs :: node and name :: string
  assume "fst (makedirs_split name) \<noteq> [] \<and> snd (makedirs_split name) \<noteq> []
      \<and> \<not> path_exists wd fs (fst (makedirs_split name))"
  then have "length (fst (makedirs_split name)) < length name"
    using length_makedirs_split [of name "fst (makedirs_split name)" "snd (makedirs_split name)"]
    by simp
  then show "((wd, fs, fst (makedirs_split name)), (wd, fs, name))
      \<in> measure (\<lambda>(wd, fs, name). length name)"
    by simp
qed

text \<open>
  \<open>grows wd name fs fs'\<close>: from \<open>fs\<close> to \<open>fs'\<close> every directory stays, the regular files
  and their contents are the same, and each new directory is what a leading part of the
  path name \<open>name\<close> resolves to.
\<close>

definition grows :: "location \<Rightarrow> string \<Rightarrow> node \<Rightarrow> node \<Rightarrow> bool" where
  "grows wd name fs fs' \<longleftrightarrow>
     (\<forall>q. is_dir fs q \<longrightarrow> is_dir fs' q) \<and>
     (\<forall>q c. lookup fs' q = Some (File c) \<longleftrightarrow> lookup fs q = Some (File c)) \<and>
     (\<forall>q. is_dir fs' q \<and> \<not> is_dir fs q \<longrightarrow> (\<exists>p. prefix p name \<and> resolve wd fs' p = Inr q))"

text \<open>
  \<open>open(p, "w")\<close> resolves the path name, refuses a directory, and leaves an empty regular
  file at the location (created, or truncated); the file object is modelled by that
  location. \<open>f.write(s)\<close> appends to the file; leaving the \<open>with\<close> block closes it, which
  changes nothing in this model.
\<close>

definition open_w :: "location \<Rightarrow> node \<Rightarrow> string \<Rightarrow> (error + location) \<times> node" where
  "open_w wd fs p =
     (case resolve wd fs p of
        Inl e \<Rightarrow> (Inl e, fs)
      | Inr l \<Rightarrow>
          (case lookup fs l of
             Some (Dir es) \<Rightarrow> (Inl IsADirectoryError, fs)
           | _ \<Rightarrow> (Inr l, put fs l (File []))))"

definition file_write :: "node \<Rightarrow> location \<Rightarrow> string \<Rightarrow> node" where
  "file_write fs l s =
     (case lookup fs l of Some (File c) \<Rightarrow> put fs l (File (c @ s)) | _ \<Rightarrow> fs)"

text \<open>\<open>open(p).read()\<close>, used to state what a later reader of the artifact sees.\<close>

definition read_file :: "location \<Rightarrow> node \<Rightarrow> string \<Rightarrow> error + string" where
  "read_file wd fs p =
     (case stat wd fs p of
        Inl e \<Rightarrow> Inl e
      | Inr (Dir es) \<Rightarrow> Inl IsADirectoryError
      | Inr (File c) \<Rightarrow> Inr c)"

subsection \<open>The job configuration and the world\<close>

text \<open>The \<open>Namespace\<close> that \<open>parse_args\<close> returns: three strings.\<close>

record args =
  model_dir :: string
  checkpoint_dir :: string
  training_dir :: string

text \<open>
  What \<open>print\<close> is given: a string, the namespace, or a list of names. The trace records
  each \<open>print\<close> with its arguments, each \<open>time.sleep\<close> with its seconds, and each call into
  the file system that \<open>train\<close> makes, with the path name it passes.
\<close>

datatype pyval = Str string | Namespace args | Names "string list"

datatype event =
    Print "pyval list"
  | Sleep nat
  | Listdir string
  | Makedirs string
  | Open_w string
  | Write string

record world =
  root :: node
  cwd :: location
  trace :: "event list"

definition emit :: "event \<Rightarrow> world \<Rightarrow> world" where
  "emit e w = w\<lparr>trace := trace w @ [e]\<rparr>"

text \<open>\<open>"{0}".format(x)\<close> for a natural number: its decimal digits.\<close>

fun str_nat :: "nat \<Rightarrow> string" where
  "str_nat n =
     (if n < 10 then [char_of (48 + n)]
      else str_nat (n div 10) @ [char_of (48 + n mod 10)])"

subsection \<open>\<open>train\<close>\<close>

text \<open>One pass through the body of the \<open>for\<close> loop (lines 20 to 22).\<close>

definition epoch :: "nat \<Rightarrow> world \<Rightarrow> world" where
  "epoch x w =
     (let w = emit (Print [Str (CHR 0x0A # ''Running epoch '' @ str_nat x @ ''...'')]) w;
          w = emit (Sleep 2) w
      in emit (Print [Str (''Completed epoch '' @ str_nat x @ ''.'')]) w)"

text \<open>
  \<open>train(args)\<close>, lines 11 to 28. An exception of \<open>os.listdir\<close>, \<open>os.makedirs\<close> or \<open>open\<close>
  is not caught: it ends \<open>train\<close> with the world as it is at that point.
\<close>

definition train :: "args \<Rightarrow> world \<Rightarrow> (error + unit) \<times> world" where
  "train a w =
     (let w = emit (Print [Str ''args'', Namespace a]) w;
          w = emit (Listdir (training_dir a)) w
      in case listdir (cwd w) (root w) (training_dir a) of
           Inl e \<Rightarrow> (Inl e, w)
         | Inr tmp \<Rightarrow>
             (let w = emit (Print [Str ''listing training files'', Names tmp]) w;
                  epochs = 5;
                  w = fold epoch [0..<epochs] w;
                  model_filename = model_dir a @ ''/model.dummy'';
                  w = emit (Makedirs (dirname model_filename)) w
              in case makedirs (cwd w) (root w) (dirname model_filename) of
                   (Inl e, fs) \<Rightarrow> (Inl e, w\<lparr>root := fs\<rparr>)
                 | (Inr u, fs) \<Rightarrow>
                     (let w = emit (Open_w model_filename) (w\<lparr>root := fs\<rparr>)
                      in case open_w (cwd w) (root w) model_filename of
                           (Inl e, fs) \<Rightarrow> (Inl e, w\<lparr>root := fs\<rparr>)
                         | (Inr f, fs) \<Rightarrow>
                             (let w = emit (Write ''Dummy model.'') (w\<lparr>root := fs\<rparr>)
                              in (Inr (), w\<lparr>root := file_write (root w) f ''Dummy model.''\<rparr>)))))"

subsection \<open>The entry point: environment and command line\<close>

text \<open>
  The parser of lines 33 to 36 knows \<open>-h\<close>, \<open>--help\<close> and three options that store one
  string each. \<open>parse_optional\<close> is \<open>ArgumentParser._parse_optional\<close> for this parser: it
  tells whether a command-line string is an argument value, names one option (exactly, by
  an abbreviation, or with \<open>=value\<close> attached), is ambiguous, or looks like an option the
  parser does not have. The test for a negative number reads \<open>\d\<close> as an ASCII digit.
\<close>

datatype dest = Help | Model_dir | Checkpoint_dir | Training_dir

definition option_strings :: "(string \<times> dest) list" where
  "option_strings =
     [(''-h'', Help), (''--help'', Help), (''--model-dir'', Model_dir),
      (''--checkpoint-dir'', Checkpoint_dir), (''--training-dir'', Training_dir)]"

datatype parsed = Positional | Ambiguous | Unknown | Opt dest "string option"

definition is_digit :: "char \<Rightarrow> bool" where
  "is_digit c = (c \<in> set ''0123456789'')"

text \<open>The regular expression \<open>^-\d+$|^-\d*\.\d+$\<close>.\<close>

definition negative_number :: "string \<Rightarrow> bool" where
  "negative_number s =
     (case s of
        [] \<Rightarrow> False
      | c # r \<Rightarrow>
          c = CHR ''-'' \<and>
          ((r \<noteq> [] \<and> list_all is_digit r) \<or>
           (let frac = dropWhile is_digit r
            in frac \<noteq> [] \<and> hd frac = CHR ''.'' \<and> tl frac \<noteq> [] \<and> list_all is_digit (tl frac))))"

definition option_tuples :: "string \<Rightarrow> (dest \<times> string option) list" where
  "option_tuples s =
     (if s ! 1 = CHR ''-'' then
        (let option_prefix = takeWhile (\<lambda>c. c \<noteq> CHR ''='') s;
             explicit_arg = (if CHR ''='' \<in> set s
                             then Some (tl (dropWhile (\<lambda>c. c \<noteq> CHR ''='') s)) else None)
         in map (\<lambda>(opt, d). (d, explicit_arg))
              (filter (\<lambda>(opt, d). prefix option_prefix opt) option_strings))
      else
        concat (map (\<lambda>(opt, d).
            if opt = take 2 s then [(d, Some (drop 2 s))]
            else if prefix s opt then [(d, None)] else [])
          option_strings))"

text \<open>\<open>option=value\<close> with the exact name of an option before the first \<open>=\<close>.\<close>

definition option_with_value :: "string \<Rightarrow> (dest \<times> string) option" where
  "option_with_value s =
     (if CHR ''='' \<in> set s then
        (case map_of option_strings (takeWhile (\<lambda>c. c \<noteq> CHR ''='') s) of
           None \<Rightarrow> None
         | Some d \<Rightarrow> Some (d, tl (dropWhile (\<lambda>c. c \<noteq> CHR ''='') s)))
      else None)"

definition parse_optional :: "string \<Rightarrow> parsed" where
  "parse_optional s =
     (if s = [] then Positional
      else if hd s \<noteq> CHR ''-'' then Positional
      else case map_of option_strings s of
        Some d \<Rightarrow> Opt d None
      | None \<Rightarrow>
          if length s = 1 then Positional
          else (case option_with_value s of
                  Some (d, v) \<Rightarrow> Opt d (Some v)
                | None \<Rightarrow>
                    (case option_tuples s of
                       [] \<Rightarrow> if negative_number s then Positional
                             else if CHR '' '' \<in> set s then Positional
                             else Unknown
                     | [(d, v)] \<Rightarrow> Opt d v
                     | _ \<Rightarrow> Ambiguous)))"

definition store :: "dest \<Rightarrow> string \<Rightarrow> args \<Rightarrow> args" where
  "store d v ns =
     (case d of
        Model_dir \<Rightarrow> ns\<lparr>model_dir := v\<rparr>
      | Checkpoint_dir \<Rightarrow> ns\<lparr>checkpoint_dir := v\<rparr>
      | Training_dir \<Rightarrow> ns\<lparr>training_dir := v\<rparr>
      | Help \<Rightarrow> ns)"

text \<open>
  \<open>parse_args\<close> starts from the defaults and reads the command line from the left. An
  option with \<open>=value\<close> stores that value; an option without it stores the next string,
  which has to be an argument value and not \<open>--\<close>. Everything else ends the process
  inside the parser (\<open>SystemExit\<close>, with the usage message or the help text): the help
  options, an option without a value, an unknown or ambiguous option, a string that
  belongs to no option (the parser has no positional arguments), \<open>--\<close>. The exit status
  and the text the parser prints are not modelled.
\<close>

fun parse_args :: "args \<Rightarrow> string list \<Rightarrow> error + args" where
  "parse_args ns [] = Inr ns"
| "parse_args ns (s # rest) =
     (if s = ''--'' then Inl SystemExit
      else case parse_optional s of
        Opt Help v \<Rightarrow> Inl SystemExit
      | Opt d (Some v) \<Rightarrow> parse_args (store d v ns) rest
      | Opt d None \<Rightarrow>
          (case rest of
             [] \<Rightarrow> Inl SystemExit
           | v # rest' \<Rightarrow>
               if v \<noteq> ''--'' \<and> parse_optional v = Positional
               then parse_args (store d v ns) rest'
               else Inl SystemExit)
      | _ \<Rightarrow> Inl SystemExit)"

text \<open>
  The entry point, lines 31 to 38, given the environment and the command line (without
  the program name). The defaults of \<open>--model-dir\<close> and \<open>--training-dir\<close> are the
  expressions \<open>os.environ["SM_MODEL_DIR"]\<close> and \<open>os.environ["SM_CHANNEL_TRAIN"]\<close>; Python
  evaluates them when \<open>add_argument\<close> is called, in this order and before
  \<open>parse_args\<close> runs, and a missing variable raises \<open>KeyError\<close> there.
\<close>

definition main :: "(string \<rightharpoonup> string) \<Rightarrow> string list \<Rightarrow> world \<Rightarrow> (error + unit) \<times> world" where
  "main env argv w =
     (case env ''SM_MODEL_DIR'' of
        None \<Rightarrow> (Inl (KeyError ''SM_MODEL_DIR''), w)
      | Some md \<Rightarrow>
          (case env ''SM_CHANNEL_TRAIN'' of
             None \<Rightarrow> (Inl (KeyError ''SM_CHANNEL_TRAIN''), w)
           | Some td \<Rightarrow>
               (case parse_args
                       \<lparr>model_dir = md, checkpoint_dir = ''/opt/ml/checkpoints'', training_dir = td\<rparr>
                       argv of
                  Inl e \<Rightarrow> (Inl e, w)
                | Inr a \<Rightarrow> train a w)))"

subsection \<open>Names for the parts of a run\<close>

text \<open>The path name that line 25 builds.\<close>

definition model_filename :: "args \<Rightarrow> string" where
  "model_filename a = model_dir a @ ''/model.dummy''"

text \<open>What one pass through the loop adds to the trace.\<close>

definition epoch_events :: "nat \<Rightarrow> event list" where
  "epoch_events x =
     [Print [Str (CHR 0x0A # ''Running epoch '' @ str_nat x @ ''...'')],
      Sleep 2,
      Print [Str (''Completed epoch '' @ str_nat x @ ''.'')]]"

text \<open>
  The trace of a run from its start to the call of \<open>os.makedirs\<close>, when the listing
  returned \<open>tmp\<close>.
\<close>

definition listed :: "args \<Rightarrow> string list \<Rightarrow> event list" where
  "listed a tmp =
     [Print [Str ''args'', Namespace a], Listdir (training_dir a),
      Print [Str ''listing training files'', Names tmp]]
     @ concat (map epoch_events [0..<5])
     @ [Makedirs (dirname (model_filename a))]"

text \<open>Which events of a trace are pauses, and which are directory listings.\<close>

fun is_sleep :: "event \<Rightarrow> bool" where
  "is_sleep (Sleep n) = True"
| "is_sleep e = False"


text \<open>
  The scenario of the specification: a training directory \<open>/data\<close> with the files
  \<open>a.csv\<close> and \<open>b.csv\<close>, the model directory \<open>/tmp/out\<close>, of which \<open>/tmp\<close> exists.
\<close>

definition fs_example :: node where
  "fs_example =
     Dir [(''data'', Dir [(''a.csv'', File ''1,2''), (''b.csv'', File ''3,4'')]),
          (''tmp'', Dir [])]"

definition w_example :: world where
  "w_example = \<lparr>root = fs_example, cwd = [], trace = []\<rparr>"

definition args_example :: args where
  "args_example =
     \<lparr>model_dir = ''/tmp/out'', checkpoint_dir = ''/opt/ml/checkpoints'',
      training_dir = ''/data''\<rparr>"

section \<open>Properties\<close>

subsection \<open>Looking up and storing nodes\<close>

lemma is_dir_iff: "is_dir fs l \<longleftrightarrow> (\<exists>es. lookup fs l = Some (Dir es))"
  by (auto simp: is_dir_def split: option.splits node.splits)

lemma lookup_append:
  "lookup fs (xs @ ys) = (case lookup fs xs of None \<Rightarrow> None | Some m \<Rightarrow> lookup m ys)"
proof (induction xs arbitrary: fs)
  case Nil
  show ?case by simp
next
  case (Cons x xs)
  show ?case
    by (cases fs) (simp_all add: Cons.IH split: option.splits)
qed

lemma lookup_File_below: "lookup fs l = Some (File c) \<Longrightarrow> ys \<noteq> [] \<Longrightarrow> lookup fs (l @ ys) = None"
  by (cases ys) (simp_all add: lookup_append)

lemma lookup_None_below: "lookup fs l = None \<Longrightarrow> lookup fs (l @ ys) = None"
  by (simp add: lookup_append)

lemma lookup_put_same:
  "l = [] \<or> is_dir fs (butlast l) \<Longrightarrow> lookup (put fs l n) l = Some n"
proof (induction l arbitrary: fs)
  case Nil
  show ?case by simp
next
  case (Cons x xs)
  then have d: "is_dir fs (butlast (x # xs))" by simp
  show ?case
  proof (cases fs)
    case (File c)
    with d show ?thesis by (cases xs) (simp_all add: is_dir_def)
  next
    case (Dir es)
    show ?thesis
    proof (cases xs)
      case Nil
      with Dir show ?thesis by (simp add: update_conv' split: option.splits)
    next
      case (Cons y ys)
      with d Dir obtain m where m: "map_of es x = Some m" "is_dir m (butlast xs)"
        by (auto simp: is_dir_def split: option.splits)
      with Cons.IH [of m] Dir show ?thesis
        by (simp add: update_conv')
    qed
  qed
qed

lemma lookup_put_other:
  "\<not> prefix l q \<Longrightarrow> \<not> prefix q l \<Longrightarrow> lookup (put fs l n) q = lookup fs q"
proof (induction l arbitrary: fs q)
  case Nil
  then show ?case by simp
next
  case (Cons x xs)
  then obtain y ys where q: "q = y # ys" by (cases q) auto
  show ?case
  proof (cases fs)
    case (File c)
    then show ?thesis by simp
  next
    case (Dir es)
    show ?thesis
    proof (cases "y = x")
      case True
      with Cons.prems q have "\<not> prefix xs ys" "\<not> prefix ys xs" by simp_all
      with Cons.IH Dir q True show ?thesis
        by (auto simp: update_conv' split: option.splits)
    next
      case False
      with Dir q show ?thesis
        by (auto simp: update_conv' split: option.splits)
    qed
  qed
qed

text \<open>Proper ancestors of the location keep their kind.\<close>

lemma is_dir_put_above:
  "strict_prefix q l \<Longrightarrow> is_dir (put fs l n) q = is_dir fs q"
proof (induction l arbitrary: fs q)
  case Nil
  then show ?case by simp
next
  case (Cons x xs)
  show ?case
  proof (cases fs)
    case (File c)
    then show ?thesis by simp
  next
    case (Dir es)
    show ?thesis
    proof (cases q)
      case Nil
      with Dir show ?thesis by (simp add: is_dir_def split: option.splits)
    next
      case (Cons y ys)
      with Cons.prems have "y = x" "strict_prefix ys xs" by (auto simp: strict_prefix_def)
      with Cons.IH Dir Cons show ?thesis
        by (auto simp: is_dir_def update_conv' split: option.splits)
    qed
  qed
qed

lemma file_put_above:
  "strict_prefix q l \<Longrightarrow> lookup (put fs l n) q = Some (File c) \<longleftrightarrow> lookup fs q = Some (File c)"
proof (induction l arbitrary: fs q)
  case Nil
  then show ?case by simp
next
  case (Cons x xs)
  show ?case
  proof (cases fs)
    case (File c)
    then show ?thesis by simp
  next
    case (Dir es)
    show ?thesis
    proof (cases q)
      case Nil
      with Dir show ?thesis by (simp split: option.splits)
    next
      case (Cons y ys)
      with Cons.prems have "y = x" "strict_prefix ys xs" by (auto simp: strict_prefix_def)
      with Cons.IH Dir Cons show ?thesis
        by (auto simp: update_conv' split: option.splits)
    qed
  qed
qed

lemma put_put: "put (put fs l a) l b = put fs l b"
proof (induction l arbitrary: fs)
  case Nil
  show ?case by simp
next
  case (Cons x xs)
  show ?case
  proof (cases fs)
    case (File c)
    then show ?thesis by simp
  next
    case (Dir es)
    with Cons.IH show ?thesis
      by (auto simp: update_conv' split: option.splits)
  qed
qed

lemma put_same: "lookup fs l = Some n \<Longrightarrow> put fs l n = fs"
proof (induction l arbitrary: fs)
  case Nil
  then show ?case by simp
next
  case (Cons x xs)
  show ?case
  proof (cases fs)
    case (File c)
    then show ?thesis by simp
  next
    case (Dir es)
    with Cons show ?thesis
      by (auto simp: update_triv split: option.splits)
  qed
qed

lemma is_dir_butlast: "is_dir fs l \<Longrightarrow> is_dir fs (butlast l)"
proof (cases l rule: rev_cases)
  case Nil
  then show "is_dir fs l \<Longrightarrow> is_dir fs (butlast l)" by simp
next
  case (snoc xs x)
  assume "is_dir fs l"
  with snoc have "lookup fs (xs @ [x]) \<noteq> None" by (auto simp: is_dir_iff)
  then obtain m where m: "lookup fs xs = Some m" "lookup m [x] \<noteq> None"
    by (auto simp: lookup_append split: option.splits)
  then have "\<exists>es. m = Dir es" by (cases m) auto
  with m snoc show "is_dir fs (butlast l)" by (auto simp: is_dir_iff)
qed

lemma is_dir_prefix: "is_dir fs (l @ ys) \<Longrightarrow> is_dir fs l"
proof (induction ys rule: rev_induct)
  case Nil
  then show ?case by simp
next
  case (snoc y ys)
  from is_dir_butlast [OF snoc.prems] have "is_dir fs (l @ ys)"
    by (simp add: butlast_append)
  then show ?case by (rule snoc.IH)
qed

text \<open>Storing a node at a location that is not a directory.\<close>

lemma put_keeps_dirs:
  assumes "\<not> is_dir fs l" and "is_dir fs q"
  shows "is_dir (put fs l n) q"
proof -
  have np: "\<not> prefix l q"
    using assms by (auto simp: prefix_def dest: is_dir_prefix)
  show ?thesis
  proof (cases "prefix q l")
    case True
    with np have "strict_prefix q l" by (auto simp: strict_prefix_def)
    with assms(2) show ?thesis by (simp add: is_dir_put_above)
  next
    case False
    with np assms(2) show ?thesis by (simp add: is_dir_iff lookup_put_other)
  qed
qed

lemma lookup_leaf: "leaf n \<Longrightarrow> ys \<noteq> [] \<Longrightarrow> lookup n ys = None"
  by (cases n; cases ys) (simp_all add: leaf_def)

lemma lookup_not_dir_below:
  assumes "\<not> is_dir fs l" and "ys \<noteq> []"
  shows "lookup fs (l @ ys) = None"
proof (cases "lookup fs l")
  case None
  then show ?thesis by (simp add: lookup_append)
next
  case (Some m)
  with assms(1) obtain c where "m = File c" by (cases m) (auto simp: is_dir_iff)
  with Some assms(2) show ?thesis by (cases ys) (simp_all add: lookup_append)
qed

lemma put_new_dirs:
  assumes free: "\<not> is_dir fs l" and par: "l = [] \<or> is_dir fs (butlast l)" and lf: "leaf n"
    and new: "is_dir (put fs l n) q" and old: "\<not> is_dir fs q"
  shows "q = l \<and> n = Dir []"
proof (cases "prefix l q")
  case True
  then obtain ys where q: "q = l @ ys" by (auto simp: prefix_def)
  from par have at: "lookup (put fs l n) l = Some n" by (rule lookup_put_same)
  have "ys = []"
  proof (rule ccontr)
    assume "ys \<noteq> []"
    with lf have "lookup n ys = None" by (rule lookup_leaf)
    with at new q show False by (simp add: is_dir_iff lookup_append)
  qed
  with at new q lf show ?thesis by (cases n) (auto simp: is_dir_iff leaf_def)
next
  case np: False
  show ?thesis
  proof (cases "prefix q l")
    case True
    with np have "strict_prefix q l" by (auto simp: strict_prefix_def)
    with new old show ?thesis by (simp add: is_dir_put_above)
  next
    case False
    with np new old show ?thesis by (simp add: is_dir_iff lookup_put_other)
  qed
qed

lemma put_keeps_files:
  assumes free: "\<not> is_dir fs l" and par: "l = [] \<or> is_dir fs (butlast l)" and lf: "leaf n"
    and ne: "q \<noteq> l"
  shows "lookup (put fs l n) q = Some (File c) \<longleftrightarrow> lookup fs q = Some (File c)"
proof (cases "prefix l q")
  case True
  with ne obtain ys where q: "q = l @ ys" "ys \<noteq> []" by (auto simp: prefix_def)
  from par have "lookup (put fs l n) l = Some n" by (rule lookup_put_same)
  with lf q have "lookup (put fs l n) q = None" by (simp add: lookup_append lookup_leaf)
  moreover from free q have "lookup fs q = None" by (simp add: lookup_not_dir_below)
  ultimately show ?thesis by simp
next
  case np: False
  show ?thesis
  proof (cases "prefix q l")
    case True
    with np have "strict_prefix q l" by (auto simp: strict_prefix_def)
    then show ?thesis by (rule file_put_above)
  next
    case False
    with np show ?thesis by (simp add: lookup_put_other)
  qed
qed

subsection \<open>Path resolution\<close>

lemma walk_error: "walk fs cur cs = Inl e \<Longrightarrow> e = FileNotFoundError \<or> e = NotADirectoryError"
  by (induction fs cur cs rule: walk.induct)
     (auto split: option.splits node.splits if_splits)

lemma walk_append:
  "walk fs cur (xs @ ys) = (case walk fs cur xs of Inl e \<Rightarrow> Inl e | Inr l \<Rightarrow> walk fs l ys)"
  by (induction fs cur xs rule: walk.induct)
     (auto split: option.splits node.splits)

lemma walk_mono:
  assumes "\<And>q. is_dir fs q \<Longrightarrow> is_dir fs' q"
  shows "walk fs cur cs = Inr l \<Longrightarrow> walk fs' cur cs = Inr l"
proof (induction cs arbitrary: cur)
  case Nil
  then show ?case by simp
next
  case (Cons c cs)
  from Cons.prems obtain es where "lookup fs cur = Some (Dir es)"
    by (auto split: option.splits node.splits)
  then have "is_dir fs' cur" using assms by (simp add: is_dir_iff)
  then obtain es' where "lookup fs' cur = Some (Dir es')" by (auto simp: is_dir_iff)
  with Cons \<open>lookup fs cur = Some (Dir es)\<close> show ?case
    by (auto split: if_splits)
qed

lemma walk_step_dir: "walk fs cur (c # cs) = Inr l \<Longrightarrow> is_dir fs cur"
  by (auto simp: is_dir_iff split: option.splits node.splits)

lemma walk_parent:
  "walk fs cur cs = Inr l \<Longrightarrow> cs \<noteq> [] \<Longrightarrow> is_dir fs l \<or> (l \<noteq> [] \<and> is_dir fs (butlast l))"
proof (induction cs arbitrary: cur)
  case Nil
  then show ?case by simp
next
  case (Cons c cs)
  from Cons.prems(1) have d: "is_dir fs cur" by (rule walk_step_dir)
  show ?case
  proof (cases "cs = []")
    case True
    with Cons.prems d is_dir_butlast [OF d] show ?thesis
      by (auto simp: is_dir_iff split: if_splits)
  next
    case False
    with Cons.prems d Cons.IH show ?thesis
      by (auto simp: is_dir_iff split: if_splits)
  qed
qed

lemma walk_empties:
  "is_dir fs l \<Longrightarrow> walk fs l (replicate k []) = Inr l"
  by (induction k) (auto simp: is_dir_iff)

lemma walk_empties_Inr:
  "walk fs cur (replicate k []) = Inr l \<Longrightarrow> l = cur"
  by (induction k) (auto split: option.splits node.splits)

subsection \<open>Path names and their components\<close>

lemma components_nonempty: "components p \<noteq> []"
  by (induction p) (auto split: list.splits)

lemma components_append_sep: "components (a @ sep # b) = components a @ components b"
proof (induction a)
  case Nil
  show ?case by simp
next
  case (Cons c a)
  then show ?case
    using components_nonempty [of a] by (cases "components a") auto
qed

lemma components_no_sep: "sep \<notin> set b \<Longrightarrow> components b = [b]"
  by (induction b) auto

lemma hd_components: "p \<noteq> [] \<Longrightarrow> hd p \<noteq> sep \<Longrightarrow> hd (components p) \<noteq> []"
  by (cases p) (auto split: list.splits)

lemma components_trailing_seps: "components (x @ replicate k sep) = components x @ replicate k []"
proof (induction k)
  case 0
  show ?case by simp
next
  case (Suc k)
  have "components (x @ replicate (Suc k) sep) = components ((x @ replicate k sep) @ sep # [])"
    by (simp add: replicate_append_same)
  also have "\<dots> = components (x @ replicate k sep) @ components []"
    by (rule components_append_sep)
  finally show ?case by (simp add: Suc replicate_append_same)
qed

lemma upto_after_id: "upto_last_sep p @ after_last_sep p = p"
proof -
  have "rev (after_last_sep p) @ rev (upto_last_sep p) = rev p"
    by (simp add: upto_last_sep_def after_last_sep_def)
  then have "rev (upto_last_sep p @ after_last_sep p) = rev p" by simp
  then show ?thesis by (simp only: rev_is_rev_conv)
qed

lemma after_last_sep_no_sep: "sep \<notin> set (after_last_sep p)"
  using set_takeWhileD [of sep "\<lambda>c. c \<noteq> sep" "rev p"] by (auto simp: after_last_sep_def)

lemma upto_last_sep_cases:
  "upto_last_sep p = [] \<or> (\<exists>u. upto_last_sep p = u @ [sep])"
proof (cases "dropWhile (\<lambda>c. c \<noteq> sep) (rev p)")
  case Nil
  then show ?thesis by (simp add: upto_last_sep_def)
next
  case (Cons c cs)
  then have "c = sep" using hd_dropWhile [of "\<lambda>c. c \<noteq> sep" "rev p"] by auto
  with Cons show ?thesis by (simp add: upto_last_sep_def)
qed

lemma rstrip_sep_id: "\<exists>k. p = rstrip_sep p @ replicate k sep"
proof -
  let ?P = "\<lambda>c. c = sep"
  have "rev p = takeWhile ?P (rev p) @ dropWhile ?P (rev p)" by simp
  moreover have "takeWhile ?P (rev p) = replicate (length (takeWhile ?P (rev p))) sep"
    by (rule replicate_length_same [symmetric]) (auto dest: set_takeWhileD)
  ultimately have "rev p = replicate (length (takeWhile ?P (rev p))) sep @ dropWhile ?P (rev p)"
    by simp
  then have "rev (rev p) = rev (replicate (length (takeWhile ?P (rev p))) sep @ dropWhile ?P (rev p))"
    by simp
  then have "p = rstrip_sep p @ replicate (length (takeWhile ?P (rev p))) sep"
    by (simp add: rstrip_sep_def)
  then show ?thesis ..
qed

lemma rstrip_sep_snoc: "rstrip_sep (u @ [sep]) = rstrip_sep u"
  by (simp add: rstrip_sep_def)


lemma rstrip_sep_Nil: "rstrip_sep p = [] \<Longrightarrow> p = replicate (length p) sep"
  using rstrip_sep_id [of p] by auto

lemma dirname_prefix: "prefix (dirname p) p"
proof -
  have "prefix (upto_last_sep p) p"
    using upto_after_id [of p] by (metis prefixI)
  moreover have "prefix (rstrip_sep (upto_last_sep p)) (upto_last_sep p)"
    using rstrip_sep_id [of "upto_last_sep p"] by (metis prefixI)
  ultimately show ?thesis
    by (auto simp: dirname_def Let_def intro: prefix_order.trans)
qed

text \<open>
  The components of a path name are those of its directory name, then empty ones, then
  the last component; where the directory name is made of slashes only, all components
  but the last are empty.
\<close>

lemma components_dirname:
  assumes "dirname p \<noteq> []"
  shows "(\<exists>k. components p = components (dirname p) @ replicate k [] @ [after_last_sep p])
       \<or> (\<exists>j. components p = replicate (Suc j) [] @ [after_last_sep p]
              \<and> components (dirname p) = replicate (Suc (Suc j)) [])"
proof -
  from assms have "upto_last_sep p \<noteq> []" by (auto simp: dirname_def)
  with upto_last_sep_cases [of p] obtain u where u: "upto_last_sep p = u @ [sep]" by auto
  have "p = u @ sep # after_last_sep p"
    using upto_after_id [of p] u by simp
  then have "components p = components u @ components (after_last_sep p)"
    using components_append_sep [of u "after_last_sep p"] by simp
  then have cp: "components p = components u @ [after_last_sep p]"
    by (simp add: components_no_sep after_last_sep_no_sep)
  show ?thesis
  proof (cases "upto_last_sep p = replicate (length (upto_last_sep p)) sep")
    case True
    then have d: "dirname p = upto_last_sep p" by (simp add: dirname_def)
    from True u have "u @ [sep] = replicate (Suc (length u)) sep" by simp
    then have "u @ [sep] = replicate (length u) sep @ [sep]"
      by (simp add: replicate_append_same)
    then have ur: "u = replicate (length u) sep" by simp
    have "components u = components ([] @ replicate (length u) sep)" using ur by simp
    also have "\<dots> = replicate (Suc (length u)) []"
      by (simp only: components_trailing_seps) simp
    finally have cu: "components u = replicate (Suc (length u)) []" .
    have "components (dirname p) = components (u @ sep # [])" using d u by simp
    also have "\<dots> = components u @ components []" by (rule components_append_sep)
    finally have "components (dirname p) = replicate (Suc (Suc (length u))) []"
      using cu by (simp add: replicate_append_same)
    with cp cu show ?thesis by auto
  next
    case False
    with assms have d: "dirname p = rstrip_sep u"
      using u by (simp add: dirname_def Let_def rstrip_sep_snoc)
    from rstrip_sep_id [of u] obtain k where "u = rstrip_sep u @ replicate k sep" ..
    then have "components u = components (rstrip_sep u) @ replicate k []"
      using components_trailing_seps [of "rstrip_sep u" k] by simp
    with cp d show ?thesis by auto
  qed
qed

lemma walk_dirname:
  assumes "dirname p \<noteq> []" and "walk fs start (components p) = Inr l"
  shows "\<exists>l'. walk fs start (components (dirname p)) = Inr l' \<and> is_dir fs l'"
  using components_dirname [OF assms(1)]
proof (elim disjE exE conjE)
  fix k
  assume c: "components p = components (dirname p) @ replicate k [] @ [after_last_sep p]"
  with assms(2) obtain l' where l': "walk fs start (components (dirname p)) = Inr l'"
    and rest: "walk fs l' (replicate k [] @ [after_last_sep p]) = Inr l"
    by (auto simp: walk_append split: sum.splits)
  obtain c cs where "replicate k [] @ [after_last_sep p] = c # cs"
    by (cases k) simp_all
  with rest have "walk fs l' (c # cs) = Inr l" by (simp only:)
  then have "is_dir fs l'" by (rule walk_step_dir)
  with l' show ?thesis by blast
next
  fix j
  assume c: "components p = replicate (Suc j) [] @ [after_last_sep p]"
    and d: "components (dirname p) = replicate (Suc (Suc j)) []"
  from assms(2) c have "walk fs start ([] # replicate j [] @ [after_last_sep p]) = Inr l"
    by (simp only: replicate_Suc append_Cons)
  then have "is_dir fs start" by (rule walk_step_dir)
  with d walk_empties [of fs start "Suc (Suc j)"] show ?thesis by auto
qed

lemma hd_dirname: "dirname p \<noteq> [] \<Longrightarrow> hd (dirname p) = hd p"
  using dirname_prefix [of p] by (metis hd_append2 prefixE)

lemma resolve_dirname:
  assumes "dirname p \<noteq> []" and "resolve wd fs p = Inr l"
  shows "path_isdir wd fs (dirname p)"
proof -
  from assms(2) have "walk fs (if hd p = sep then [] else wd) (components p) = Inr l"
    by (auto simp: resolve_def split: if_splits)
  from walk_dirname [OF assms(1) this] assms(1) show ?thesis
    by (auto simp: path_isdir_def stat_def resolve_def hd_dirname is_dir_iff)
qed

declare makedirs.simps [simp del]

subsection \<open>The file system operations\<close>

lemma drop_trailing_empty_id: "\<exists>k. cs = drop_trailing_empty cs @ replicate k []"
proof -
  let ?P = "\<lambda>c::string. c = []"
  have "takeWhile ?P (rev cs) = replicate (length (takeWhile ?P (rev cs))) []"
    by (rule replicate_length_same [symmetric]) (auto dest: set_takeWhileD)
  then have "rev cs = replicate (length (takeWhile ?P (rev cs))) [] @ dropWhile ?P (rev cs)"
    by (metis takeWhile_dropWhile_id)
  then have "rev (rev cs) = rev (replicate (length (takeWhile ?P (rev cs))) [] @ dropWhile ?P (rev cs))"
    by simp
  then have "cs = drop_trailing_empty cs @ replicate (length (takeWhile ?P (rev cs))) []"
    by (simp add: drop_trailing_empty_def)
  then show ?thesis ..
qed

lemma walk_trailing_Inr: "walk fs cur (xs @ replicate k []) = Inr l \<Longrightarrow> walk fs cur xs = Inr l"
  by (auto simp: walk_append split: sum.splits dest: walk_empties_Inr)

lemma walk_trailing_dir:
  "walk fs cur xs = Inr l \<Longrightarrow> is_dir fs l \<Longrightarrow> walk fs cur (xs @ replicate k []) = Inr l"
  by (simp add: walk_append walk_empties)


lemma resolve_mono:
  assumes "\<And>q. is_dir fs q \<Longrightarrow> is_dir fs' q" and "resolve wd fs p = Inr l"
  shows "resolve wd fs' p = Inr l"
  using assms(2) walk_mono [of fs fs', OF assms(1)]
  by (auto simp: resolve_def split: if_splits)

lemma resolve_parent:
  "resolve wd fs p = Inr l \<Longrightarrow> is_dir fs l \<or> (l \<noteq> [] \<and> is_dir fs (butlast l))"
  by (auto simp: resolve_def components_nonempty split: if_splits dest!: walk_parent)


lemma path_isdir_iff:
  "path_isdir wd fs p \<longleftrightarrow> (\<exists>l. resolve wd fs p = Inr l \<and> is_dir fs l)"
  by (auto simp: path_isdir_def stat_def is_dir_iff split: sum.splits option.splits node.splits)

lemma mkdir_Inl:
  assumes "mkdir wd fs p = (Inl e, fs')"
  shows "fs' = fs" and "e = FileNotFoundError \<or> e = NotADirectoryError \<or> e = FileExistsError"
  using assms
  by (auto simp: mkdir_def split: if_splits sum.splits option.splits dest: walk_error)

lemma mkdir_Inr:
  assumes "mkdir wd fs p = (Inr u, fs')"
  shows "\<exists>l. lookup fs l = None \<and> l \<noteq> [] \<and> is_dir fs (butlast l)
            \<and> fs' = put fs l (Dir []) \<and> resolve wd fs' p = Inr l"
proof -
  let ?start = "if hd p = sep then [] else wd"
  let ?cs = "drop_trailing_empty (components p)"
  from assms obtain l where p: "p \<noteq> []" and w: "walk fs ?start ?cs = Inr l"
    and n: "lookup fs l = None" and fs': "fs' = put fs l (Dir [])"
    by (auto simp: mkdir_def split: if_splits sum.splits option.splits)
  obtain k where k: "components p = ?cs @ replicate k []"
    using drop_trailing_empty_id [of "components p"] ..
  have ne: "?cs \<noteq> []"
  proof
    assume e: "?cs = []"
    with w have l: "l = ?start" by simp
    show False
    proof (cases "hd p = sep")
      case True
      with l n show False by simp
    next
      case False
      with p have "hd (components p) \<noteq> []" by (simp add: hd_components)
      moreover from k e have "components p = replicate k []" by simp
      ultimately show False using components_nonempty [of p] by (cases k) auto
    qed
  qed
  from n have nd: "\<not> is_dir fs l" by (simp add: is_dir_iff)
  with walk_parent [OF w ne] have par: "l \<noteq> []" "is_dir fs (butlast l)" by auto
  have mono: "\<And>q. is_dir fs q \<Longrightarrow> is_dir fs' q"
    unfolding fs' using nd by (rule put_keeps_dirs)
  from par have "lookup fs' l = Some (Dir [])"
    unfolding fs' by (simp add: lookup_put_same)
  then have d: "is_dir fs' l" by (simp add: is_dir_iff)
  from walk_mono [of fs fs', OF mono w] have "walk fs' ?start ?cs = Inr l" .
  from walk_trailing_dir [OF this d, of k] k have "walk fs' ?start (components p) = Inr l"
    by simp
  with p have "resolve wd fs' p = Inr l" by (simp add: resolve_def)
  with n par fs' show ?thesis by blast
qed

lemma mkdir_of_dir:
  assumes "path_isdir wd fs p"
  shows "\<exists>e. mkdir wd fs p = (Inl e, fs)"
proof -
  from assms obtain l where r: "resolve wd fs p = Inr l" and d: "is_dir fs l"
    by (auto simp: path_isdir_iff)
  let ?start = "if hd p = sep then [] else wd"
  from r have p: "p \<noteq> []" and w: "walk fs ?start (components p) = Inr l"
    by (auto simp: resolve_def split: if_splits)
  obtain k where k: "components p = drop_trailing_empty (components p) @ replicate k []"
    using drop_trailing_empty_id [of "components p"] ..
  from w k have "walk fs ?start (drop_trailing_empty (components p) @ replicate k []) = Inr l"
    by simp
  then have "walk fs ?start (drop_trailing_empty (components p)) = Inr l"
    by (rule walk_trailing_Inr)
  with p d show ?thesis by (auto simp: mkdir_def is_dir_iff)
qed

lemma grows_refl: "grows wd name fs fs"
  by (simp add: grows_def)

lemma grows_trans:
  assumes "grows wd head fs fs1" and "grows wd name fs1 fs2" and "prefix head name"
  shows "grows wd name fs fs2"
proof -
  from assms(2) have mono: "\<And>q. is_dir fs1 q \<Longrightarrow> is_dir fs2 q" by (simp add: grows_def)
  have "\<exists>p. prefix p name \<and> resolve wd fs2 p = Inr q" if "is_dir fs2 q" "\<not> is_dir fs q" for q
  proof (cases "is_dir fs1 q")
    case True
    with that assms(1) obtain p where "prefix p head" "resolve wd fs1 p = Inr q"
      by (auto simp: grows_def)
    with assms(3) resolve_mono [of fs1 fs2, OF mono] show ?thesis
      by (blast intro: prefix_order.trans)
  next
    case False
    with that assms(2) show ?thesis by (auto simp: grows_def)
  qed
  with assms(1,2) show ?thesis by (auto simp: grows_def)
qed

lemma grows_mkdir:
  assumes "mkdir wd fs name = (r, fs')"
  shows "grows wd name fs fs'"
proof (cases r)
  case (Inl e)
  with assms have "fs' = fs" by (auto dest: mkdir_Inl(1))
  then show ?thesis by (simp add: grows_refl)
next
  case (Inr u)
  with assms mkdir_Inr [of wd fs name u fs'] obtain l where l: "lookup fs l = None" "l \<noteq> []"
    "is_dir fs (butlast l)" "fs' = put fs l (Dir [])" "resolve wd fs' name = Inr l"
    by auto
  from l(1) have nd: "\<not> is_dir fs l" by (simp add: is_dir_iff)
  have lf: "leaf (Dir [])" by (simp add: leaf_def)
  have "is_dir fs' q" if "is_dir fs q" for q
    unfolding l(4) using nd that by (rule put_keeps_dirs)
  moreover have "lookup fs' q = Some (File c) \<longleftrightarrow> lookup fs q = Some (File c)" for q c
  proof (cases "q = l")
    case True
    with l show ?thesis by (simp add: lookup_put_same)
  next
    case False
    with nd l(3) lf show ?thesis unfolding l(4) by (simp add: put_keeps_files)
  qed
  moreover have "\<exists>p. prefix p name \<and> resolve wd fs' p = Inr q"
    if "is_dir fs' q" "\<not> is_dir fs q" for q
  proof -
    from that nd l(3) lf have "q = l" unfolding l(4) by (auto dest: put_new_dirs)
    with l(5) show ?thesis by auto
  qed
  ultimately show ?thesis by (simp add: grows_def)
qed

lemma mkdir_exist_ok_cases:
  assumes "mkdir_exist_ok wd fs name = (r, fs')"
  shows "grows wd name fs fs'"
    and "r = Inr u \<Longrightarrow> path_isdir wd fs' name"
    and "r = Inl e \<Longrightarrow> e = FileNotFoundError \<or> e = NotADirectoryError \<or> e = FileExistsError"
proof -
  obtain r0 fs0 where m: "mkdir wd fs name = (r0, fs0)" by (cases "mkdir wd fs name")
  with assms have fs0: "fs0 = fs'"
    by (auto simp: mkdir_exist_ok_def split: sum.splits if_splits)
  with m show "grows wd name fs fs'" by (simp add: grows_mkdir)
  show "path_isdir wd fs' name" if "r = Inr u"
  proof (cases r0)
    case (Inl e0)
    with assms m that show ?thesis
      by (auto simp: mkdir_exist_ok_def split: if_splits)
  next
    case (Inr u0)
    with m mkdir_Inr [of wd fs name u0 fs0] obtain l where "is_dir fs (butlast l)" "l \<noteq> []"
      "fs0 = put fs l (Dir [])" "resolve wd fs0 name = Inr l"
      by auto
    then show ?thesis
      unfolding fs0 [symmetric] by (auto simp: path_isdir_iff is_dir_iff lookup_put_same)
  qed
  show "e = FileNotFoundError \<or> e = NotADirectoryError \<or> e = FileExistsError" if "r = Inl e"
    using assms m that mkdir_Inl(2) [of wd fs name e fs0]
    by (auto simp: mkdir_exist_ok_def split: sum.splits if_splits)
qed

lemma mkdir_exist_ok_of_dir:
  "path_isdir wd fs name \<Longrightarrow> mkdir_exist_ok wd fs name = (Inr (), fs)"
  using mkdir_of_dir [of wd fs name] by (auto simp: mkdir_exist_ok_def)

lemma makedirs_split_prefix: "prefix (fst (makedirs_split name)) name"
proof -
  have "prefix (dirname (dirname name)) name"
    using dirname_prefix [of name] dirname_prefix [of "dirname name"]
    by (rule prefix_order.trans [rotated])
  with dirname_prefix [of name] show ?thesis
    by (simp add: makedirs_split_def path_split_def)
qed

lemma makedirs_split_exists:
  assumes "path_isdir wd fs name" and "fst (makedirs_split name) \<noteq> []"
  shows "path_exists wd fs (fst (makedirs_split name))"
proof -
  have ex: "path_exists wd fs p" if "path_isdir wd fs p" for p
    using that by (auto simp: path_isdir_def path_exists_def split: sum.splits)
  from assms(1) obtain l where l: "resolve wd fs name = Inr l" by (auto simp: path_isdir_iff)
  show ?thesis
  proof (cases "after_last_sep name = []")
    case False
    with assms(2) have "fst (makedirs_split name) = dirname name" "dirname name \<noteq> []"
      by (simp_all add: makedirs_split_def path_split_def)
    with resolve_dirname [OF _ l] ex show ?thesis by simp
  next
    case True
    with assms(2) have h: "fst (makedirs_split name) = dirname (dirname name)"
      "dirname (dirname name) \<noteq> []"
      by (simp_all add: makedirs_split_def path_split_def)
    then have "dirname name \<noteq> []" by (auto simp: dirname_def upto_last_sep_def rstrip_sep_def)
    from resolve_dirname [OF this l] obtain l' where "resolve wd fs (dirname name) = Inr l'"
      by (auto simp: path_isdir_iff)
    from resolve_dirname [OF h(2) this] h(1) ex show ?thesis by simp
  qed
qed

lemma makedirs_of_dir:
  assumes "path_isdir wd fs name"
  shows "makedirs wd fs name = (Inr (), fs)"
  using assms makedirs_split_exists [OF assms]
  by (subst makedirs.simps) (auto simp: mkdir_exist_ok_of_dir)

lemma makedirs_grows: "makedirs wd fs name = (r, fs') \<Longrightarrow> grows wd name fs fs'"
proof (induction wd fs name arbitrary: r fs' rule: makedirs.induct)
  case (1 wd fs name)
  let ?head = "fst (makedirs_split name)" and ?tail = "snd (makedirs_split name)"
  show ?case
  proof (cases "?head \<noteq> [] \<and> ?tail \<noteq> [] \<and> \<not> path_exists wd fs ?head")
    case False
    with "1.prems" have "mkdir_exist_ok wd fs name = (r, fs')"
      by (subst (asm) makedirs.simps) auto
    then show ?thesis by (rule mkdir_exist_ok_cases(1))
  next
    case True
    obtain r1 fs1 where h: "makedirs wd fs ?head = (r1, fs1)"
      by (cases "makedirs wd fs ?head")
    from "1.IH" [OF True h] have g1: "grows wd ?head fs fs1" .
    from "1.prems" True h
    have "fs' = fs1 \<or> (\<exists>r'. mkdir_exist_ok wd fs1 name = (r', fs'))"
      by (subst (asm) makedirs.simps) (auto split: sum.splits if_splits)
    then have "grows wd name fs1 fs'"
      by (auto simp: grows_refl dest: mkdir_exist_ok_cases(1))
    with g1 show ?thesis
      using makedirs_split_prefix by (rule grows_trans)
  qed
qed



lemma open_w_Inr:
  assumes "open_w wd fs p = (Inr l, fs')"
  shows "resolve wd fs p = Inr l" and "\<not> is_dir fs l" and "l \<noteq> []" and "is_dir fs (butlast l)"
    and "fs' = put fs l (File [])"
proof -
  from assms show r: "resolve wd fs p = Inr l" and d: "\<not> is_dir fs l"
    and "fs' = put fs l (File [])"
    by (auto simp: open_w_def is_dir_iff split: sum.splits option.splits node.splits)
  from resolve_parent [OF r] d show "l \<noteq> []" and "is_dir fs (butlast l)" by auto
qed


text \<open>Opening for writing and writing \<open>s\<close> leaves a file with content \<open>s\<close> at the location.\<close>

lemma open_write:
  assumes "open_w wd fs p = (Inr l, fs')"
  shows "file_write fs' l s = put fs l (File s)"
    and "lookup (file_write fs' l s) l = Some (File s)"
proof -
  note o = open_w_Inr [OF assms]
  from o have "lookup fs' l = Some (File [])" by (simp add: lookup_put_same)
  with o show w: "file_write fs' l s = put fs l (File s)"
    by (simp add: file_write_def put_put)
  from o show "lookup (file_write fs' l s) l = Some (File s)"
    unfolding w by (simp add: lookup_put_same)
qed

subsection \<open>The shape of a run\<close>

lemma epoch_eq: "epoch x w = w\<lparr>trace := trace w @ epoch_events x\<rparr>"
  by (simp add: epoch_def emit_def epoch_events_def Let_def)

lemma fold_epoch: "fold epoch xs w = w\<lparr>trace := trace w @ concat (map epoch_events xs)\<rparr>"
  by (induction xs arbitrary: w) (simp_all add: epoch_eq)

lemma train_unfold:
  "train a w =
     (case listdir (cwd w) (root w) (training_dir a) of
        Inl e \<Rightarrow>
          (Inl e, w\<lparr>trace := trace w @ [Print [Str ''args'', Namespace a], Listdir (training_dir a)]\<rparr>)
      | Inr tmp \<Rightarrow>
          (case makedirs (cwd w) (root w) (dirname (model_filename a)) of
             (Inl e, fs) \<Rightarrow> (Inl e, w\<lparr>root := fs, trace := trace w @ listed a tmp\<rparr>)
           | (Inr u, fs) \<Rightarrow>
               (case open_w (cwd w) fs (model_filename a) of
                  (Inl e, fs') \<Rightarrow>
                    (Inl e, w\<lparr>root := fs',
                              trace := trace w @ listed a tmp @ [Open_w (model_filename a)]\<rparr>)
                | (Inr f, fs') \<Rightarrow>
                    (Inr (), w\<lparr>root := file_write fs' f ''Dummy model.'',
                               trace := trace w @ listed a tmp
                                 @ [Open_w (model_filename a), Write ''Dummy model.'']\<rparr>))))"
  by (simp add: train_def Let_def emit_def fold_epoch listed_def model_filename_def
      split: sum.splits prod.splits)

lemma example_run:
  "train args_example w_example =
     (Inr (),
      \<lparr>root = Dir [(''data'', Dir [(''a.csv'', File ''1,2''), (''b.csv'', File ''3,4'')]),
                   (''tmp'', Dir [(''out'', Dir [(''model.dummy'', File ''Dummy model.'')])])],
       cwd = [],
       trace = listed args_example [''a.csv'', ''b.csv'']
         @ [Open_w ''/tmp/out/model.dummy'', Write ''Dummy model.'']\<rparr>)"
  by code_simp

lemma train_success:
  assumes "train a w = (Inr u, w')"
  shows "\<exists>tmp fs1 f.
      listdir (cwd w) (root w) (training_dir a) = Inr tmp
    \<and> makedirs (cwd w) (root w) (dirname (model_filename a)) = (Inr (), fs1)
    \<and> resolve (cwd w) fs1 (model_filename a) = Inr f
    \<and> \<not> is_dir fs1 f \<and> f \<noteq> [] \<and> is_dir fs1 (butlast f)
    \<and> w' = w\<lparr>root := put fs1 f (File ''Dummy model.''),
              trace := trace w @ listed a tmp
                @ [Open_w (model_filename a), Write ''Dummy model.'']\<rparr>"
proof -
  from assms obtain tmp fs1 f fs2 where
    l: "listdir (cwd w) (root w) (training_dir a) = Inr tmp" and
    m: "makedirs (cwd w) (root w) (dirname (model_filename a)) = (Inr (), fs1)" and
    o: "open_w (cwd w) fs1 (model_filename a) = (Inr f, fs2)" and
    w': "w' = w\<lparr>root := file_write fs2 f ''Dummy model.'',
                 trace := trace w @ listed a tmp
                   @ [Open_w (model_filename a), Write ''Dummy model.'']\<rparr>"
    by (auto simp: train_unfold split: sum.splits prod.splits)
  from open_write(1) [OF o] w' have "w' = w\<lparr>root := put fs1 f (File ''Dummy model.''),
      trace := trace w @ listed a tmp @ [Open_w (model_filename a), Write ''Dummy model.'']\<rparr>"
    by simp
  with l m open_w_Inr [OF o] show ?thesis by blast
qed

text \<open>The four ways a run can end.\<close>

lemma train_listdir_fails:
  assumes "listdir (cwd w) (root w) (training_dir a) = Inl e"
  shows "train a w =
    (Inl e, w\<lparr>trace := trace w @ [Print [Str ''args'', Namespace a], Listdir (training_dir a)]\<rparr>)"
  by (subst train_unfold) (simp add: assms)

lemma train_makedirs_fails:
  assumes "listdir (cwd w) (root w) (training_dir a) = Inr tmp"
    and "makedirs (cwd w) (root w) (dirname (model_filename a)) = (Inl e, fs1)"
  shows "train a w = (Inl e, w\<lparr>root := fs1, trace := trace w @ listed a tmp\<rparr>)"
  by (subst train_unfold) (simp add: assms)

lemma train_open_fails:
  assumes "listdir (cwd w) (root w) (training_dir a) = Inr tmp"
    and "makedirs (cwd w) (root w) (dirname (model_filename a)) = (Inr u, fs1)"
    and "open_w (cwd w) fs1 (model_filename a) = (Inl e, fs2)"
  shows "train a w =
    (Inl e, w\<lparr>root := fs2, trace := trace w @ listed a tmp @ [Open_w (model_filename a)]\<rparr>)"
  by (subst train_unfold) (simp add: assms)

lemma train_succeeds:
  assumes "listdir (cwd w) (root w) (training_dir a) = Inr tmp"
    and "makedirs (cwd w) (root w) (dirname (model_filename a)) = (Inr u, fs1)"
    and "open_w (cwd w) fs1 (model_filename a) = (Inr f, fs2)"
  shows "train a w =
    (Inr (), w\<lparr>root := file_write fs2 f ''Dummy model.'',
               trace := trace w @ listed a tmp
                 @ [Open_w (model_filename a), Write ''Dummy model.'']\<rparr>)"
  by (subst train_unfold) (simp add: assms)

lemma sleeps_listed: "filter is_sleep (listed a tmp) = replicate 5 (Sleep 2)"
  by (simp add: listed_def epoch_events_def upt_rec [of _ 5] numeral_eq_Suc)


lemma upto_last_sep_append: "sep \<notin> set t \<Longrightarrow> upto_last_sep (h @ sep # t) = h @ [sep]"
proof -
  assume "sep \<notin> set t"
  then have "dropWhile (\<lambda>c. c \<noteq> sep) (rev t @ sep # rev h) = sep # rev h"
    by (subst dropWhile_append2) auto
  then show ?thesis by (simp add: upto_last_sep_def)
qed

lemma after_last_sep_append: "sep \<notin> set t \<Longrightarrow> after_last_sep (h @ sep # t) = t"
proof -
  assume "sep \<notin> set t"
  then have "takeWhile (\<lambda>c. c \<noteq> sep) (rev t @ sep # rev h) = rev t"
    by (subst takeWhile_append2) auto
  then show ?thesis by (simp add: after_last_sep_def)
qed

lemma model_dummy_no_sep: "sep \<notin> set ''model.dummy''"
  by (simp add: sep_def)

lemma upto_model_filename: "upto_last_sep (model_filename a) = model_dir a @ [sep]"
  using upto_last_sep_append [OF model_dummy_no_sep, of "model_dir a"]
  by (simp add: model_filename_def sep_def)

lemma dirname_model_filename_nonempty: "dirname (model_filename a) \<noteq> []"
proof
  assume e: "dirname (model_filename a) = []"
  let ?u = "model_dir a @ [sep]"
  from e have "?u = replicate (length ?u) sep \<or> rstrip_sep ?u = []"
    by (auto simp: dirname_def upto_model_filename Let_def split: if_splits)
  then have all: "?u = replicate (length ?u) sep"
    by (auto dest: rstrip_sep_Nil)
  with e show False
    by (simp add: dirname_def upto_model_filename Let_def)
qed

lemma listdir_Inr_iff: "(\<exists>tmp. listdir wd fs p = Inr tmp) \<longleftrightarrow> path_isdir wd fs p"
  by (auto simp: listdir_def path_isdir_def split: sum.splits node.splits)

lemma path_isdir_mono:
  assumes "\<And>q. is_dir fs q \<Longrightarrow> is_dir fs' q" and "path_isdir wd fs p"
  shows "path_isdir wd fs' p"
proof -
  from assms(2) obtain l where "resolve wd fs p = Inr l" "is_dir fs l"
    by (auto simp: path_isdir_iff)
  with resolve_mono [of fs fs', OF assms(1)] assms(1) show ?thesis
    by (auto simp: path_isdir_iff)
qed

lemma listed_checkpoint:
  "listed (a\<lparr>checkpoint_dir := c\<rparr>) tmp
     = Print [Str ''args'', Namespace (a\<lparr>checkpoint_dir := c\<rparr>)] # tl (listed a tmp)"
  by (simp add: listed_def model_filename_def)

lemma listed_Cons: "listed a tmp = Print [Str ''args'', Namespace a] # tl (listed a tmp)"
  by (simp add: listed_def)


lemma listed_echo: "Print [Str ''listing training files'', Names tmp] \<in> set (listed a tmp)"
  by (simp add: listed_def)

lemma train_trace_listed:
  assumes "listdir (cwd w) (root w) (training_dir a) = Inr tmp"
  shows "\<exists>rest. trace (snd (train a w)) = trace w @ listed a tmp @ rest"
proof (cases "makedirs (cwd w) (root w) (dirname (model_filename a))")
  case m: (Pair r1 fs1)
  show ?thesis
  proof (cases r1)
    case (Inl e)
    with m have "makedirs (cwd w) (root w) (dirname (model_filename a)) = (Inl e, fs1)"
      by simp
    note t = train_makedirs_fails [OF assms this]
    show ?thesis by (rule exI [of _ "[]"]) (simp add: t)
  next
    case (Inr u1)
    with m have m': "makedirs (cwd w) (root w) (dirname (model_filename a)) = (Inr u1, fs1)"
      by simp
    show ?thesis
    proof (cases "open_w (cwd w) fs1 (model_filename a)")
      case o: (Pair r2 fs2)
      show ?thesis
      proof (cases r2)
        case (Inl e)
        with o have "open_w (cwd w) fs1 (model_filename a) = (Inl e, fs2)" by simp
        note t = train_open_fails [OF assms m' this]
        show ?thesis by (rule exI [of _ "[Open_w (model_filename a)]"]) (simp add: t)
      next
        case (Inr f)
        with o have "open_w (cwd w) fs1 (model_filename a) = (Inr f, fs2)" by simp
        note t = train_succeeds [OF assms m' this]
        show ?thesis
          by (rule exI [of _ "[Open_w (model_filename a), Write ''Dummy model.'']"])
             (simp add: t)
      qed
    qed
  qed
qed






section \<open>The claims of the specification\<close>

text \<open>
  C1. After a successful run, reading \<open>model_dir + "/model.dummy"\<close> returns exactly
  \<open>Dummy model.\<close>, whatever was at that place before.
\<close>

theorem artifact_round_trip:
  "train a w = (Inr u, w') \<Longrightarrow>
     read_file (cwd w') (root w') (model_dir a @ ''/model.dummy'') = Inr ''Dummy model.''"
proof -
  assume "train a w = (Inr u, w')"
  from train_success [OF this] obtain tmp fs1 f where
    r: "resolve (cwd w) fs1 (model_filename a) = Inr f" and
    nd: "\<not> is_dir fs1 f" and par: "f \<noteq> []" "is_dir fs1 (butlast f)" and
    w': "w' = w\<lparr>root := put fs1 f (File ''Dummy model.''),
                 trace := trace w @ listed a tmp
                   @ [Open_w (model_filename a), Write ''Dummy model.'']\<rparr>"
    by blast
  let ?fs = "put fs1 f (File ''Dummy model.'')"
  have "\<And>q. is_dir fs1 q \<Longrightarrow> is_dir ?fs q"
    using nd by (rule put_keeps_dirs)
  from resolve_mono [of fs1 ?fs, OF this r] have "resolve (cwd w) ?fs (model_filename a) = Inr f" .
  moreover from par have "lookup ?fs f = Some (File ''Dummy model.'')"
    by (simp add: lookup_put_same)
  ultimately show ?thesis
    by (simp add: w' read_file_def stat_def model_filename_def)
qed

theorem artifact_round_trip_witness:
  "fst (train args_example w_example) = Inr ()
   \<and> read_file [] (root (snd (train args_example w_example))) ''/tmp/out/model.dummy''
       = Inr ''Dummy model.''"
  using artifact_round_trip [OF example_run] example_run
  by (simp add: args_example_def)







text \<open>
  C4. When \<open>SM_MODEL_DIR\<close> is not set, the job ends with \<open>KeyError\<close> (the
  ConfigurationMissing condition) whatever the command line is, in particular when it
  has no \<open>--model-dir\<close>; the world is as before: nothing was listed, printed or written.
\<close>

theorem missing_model_dir_fails_first:
  "env ''SM_MODEL_DIR'' = None \<Longrightarrow> main env argv w = (Inl (KeyError ''SM_MODEL_DIR''), w)"
  by (simp add: main_def)

theorem missing_model_dir_fails_first_witness:
  "Map.empty ''SM_MODEL_DIR'' = (None :: string option)
   \<and> main Map.empty [] w_example = (Inl (KeyError ''SM_MODEL_DIR''), w_example)
   \<and> trace w_example = []"
  using missing_model_dir_fails_first [of Map.empty "[]" w_example]
  by (simp add: w_example_def)

text \<open>
  C5. Once the listing has returned, the trace of the run is fixed but for its end: the
  echo of the arguments, the listing and its echo; then five passes through the loop,
  numbered 0 to 4, each a message, a pause of 2 seconds and a message; then
  \<open>os.makedirs\<close>, \<open>open\<close> and \<open>write\<close>, as far as the run gets. Nothing in it depends on
  what the listing returned, except the echo of the listing. The run pauses five times,
  2 seconds each, and it succeeds exactly when it gets to the \<open>write\<close>.
\<close>

theorem five_epochs_in_sequence:
  "listdir (cwd w) (root w) (training_dir a) = Inr tmp \<Longrightarrow>
     \<exists>rest.
       trace (snd (train a w)) =
         trace w
         @ [Print [Str ''args'', Namespace a], Listdir (training_dir a),
            Print [Str ''listing training files'', Names tmp]]
         @ concat (map epoch_events [0, 1, 2, 3, 4])
         @ [Makedirs (dirname (model_dir a @ ''/model.dummy''))]
         @ rest
     \<and> prefix rest [Open_w (model_dir a @ ''/model.dummy''), Write ''Dummy model.'']
     \<and> (fst (train a w) = Inr ()
          \<longleftrightarrow> rest = [Open_w (model_dir a @ ''/model.dummy''), Write ''Dummy model.''])
     \<and> filter is_sleep (trace (snd (train a w)))
          = filter is_sleep (trace w) @ replicate 5 (Sleep 2)"
proof -
  assume l: "listdir (cwd w) (root w) (training_dir a) = Inr tmp"
  have five: "[0, 1, 2, 3, 4] = [0..<5]"
    by (simp add: upt_rec [of _ 5] numeral_eq_Suc)
  have pre: "[Print [Str ''args'', Namespace a], Listdir (training_dir a),
            Print [Str ''listing training files'', Names tmp]]
         @ concat (map epoch_events [0, 1, 2, 3, 4])
         @ [Makedirs (dirname (model_dir a @ ''/model.dummy''))] = listed a tmp"
    unfolding five by (simp add: listed_def model_filename_def)
  have "\<exists>rest. trace (snd (train a w)) = trace w @ listed a tmp @ rest
     \<and> prefix rest [Open_w (model_filename a), Write ''Dummy model.'']
     \<and> (fst (train a w) = Inr ()
          \<longleftrightarrow> rest = [Open_w (model_filename a), Write ''Dummy model.''])
     \<and> filter is_sleep (trace (snd (train a w)))
          = filter is_sleep (trace w) @ replicate 5 (Sleep 2)"
  proof (cases "makedirs (cwd w) (root w) (dirname (model_filename a))")
    case m: (Pair r1 fs1)
    show ?thesis
    proof (cases r1)
      case (Inl e)
      with m have "makedirs (cwd w) (root w) (dirname (model_filename a)) = (Inl e, fs1)"
        by simp
      note t = train_makedirs_fails [OF l this]
      show ?thesis
        by (rule exI [of _ "[]"]) (simp add: t sleeps_listed)
    next
      case (Inr u1)
      with m have m': "makedirs (cwd w) (root w) (dirname (model_filename a)) = (Inr u1, fs1)"
        by simp
      show ?thesis
      proof (cases "open_w (cwd w) fs1 (model_filename a)")
        case o: (Pair r2 fs2)
        show ?thesis
        proof (cases r2)
          case (Inl e)
          with o have "open_w (cwd w) fs1 (model_filename a) = (Inl e, fs2)" by simp
          note t = train_open_fails [OF l m' this]
          show ?thesis
            by (rule exI [of _ "[Open_w (model_filename a)]"]) (simp add: t sleeps_listed)
        next
          case (Inr f)
          with o have "open_w (cwd w) fs1 (model_filename a) = (Inr f, fs2)" by simp
          note t = train_succeeds [OF l m' this]
          show ?thesis
            by (rule exI [of _ "[Open_w (model_filename a), Write ''Dummy model.'']"])
               (simp add: t sleeps_listed)
        qed
      qed
    qed
  qed
  then show ?thesis
    unfolding model_filename_def pre [symmetric] by simp
qed

theorem five_epochs_in_sequence_witness:
  "listdir (cwd w_example) (root w_example) (training_dir args_example) = Inr [''a.csv'', ''b.csv'']
   \<and> filter is_sleep (trace (snd (train args_example w_example)))
       = [Sleep 2, Sleep 2, Sleep 2, Sleep 2, Sleep 2]
   \<and> fst (train args_example w_example) = Inr ()"
proof -
  have l: "listdir (cwd w_example) (root w_example) (training_dir args_example)
      = Inr [''a.csv'', ''b.csv'']"
    by code_simp
  from five_epochs_in_sequence [OF l]
  have "filter is_sleep (trace (snd (train args_example w_example)))
      = filter is_sleep (trace w_example) @ replicate 5 (Sleep 2)"
    by blast
  then have "filter is_sleep (trace (snd (train args_example w_example)))
      = [Sleep 2, Sleep 2, Sleep 2, Sleep 2, Sleep 2]"
    by (simp add: w_example_def numeral_eq_Suc)
  with l example_run show ?thesis by simp
qed

text \<open>
  C6. A second run with the same arguments, on the world the first successful run left,
  succeeds as well and leaves the file system exactly as it found it: the directories
  that exist are accepted, the artifact is truncated and written again with the same
  content, and no entry is added anywhere.
\<close>

theorem rerun_idempotent:
  "train a w = (Inr u, w1) \<Longrightarrow>
     \<exists>w2. train a w1 = (Inr (), w2) \<and> root w2 = root w1
        \<and> read_file (cwd w2) (root w2) (model_dir a @ ''/model.dummy'') = Inr ''Dummy model.''"
proof -
  assume t: "train a w = (Inr u, w1)"
  let ?c = "''Dummy model.''"
  from train_success [OF t] obtain tmp fs1 f where
    l: "listdir (cwd w) (root w) (training_dir a) = Inr tmp" and
    m: "makedirs (cwd w) (root w) (dirname (model_filename a)) = (Inr (), fs1)" and
    r: "resolve (cwd w) fs1 (model_filename a) = Inr f" and
    nd: "\<not> is_dir fs1 f" and par: "f \<noteq> []" "is_dir fs1 (butlast f)" and
    w1: "w1 = w\<lparr>root := put fs1 f (File ?c),
                 trace := trace w @ listed a tmp @ [Open_w (model_filename a), Write ?c]\<rparr>"
    by blast
  let ?fs = "put fs1 f (File ?c)"
  have c1: "cwd w1 = cwd w" and r1: "root w1 = ?fs" by (simp_all add: w1)
  have mono1: "\<And>q. is_dir (root w) q \<Longrightarrow> is_dir fs1 q"
    using makedirs_grows [OF m] by (simp add: grows_def)
  have mono2: "\<And>q. is_dir fs1 q \<Longrightarrow> is_dir ?fs q"
    using nd by (rule put_keeps_dirs)
  from l have "path_isdir (cwd w) (root w) (training_dir a)"
    using listdir_Inr_iff by blast
  then have "path_isdir (cwd w) fs1 (training_dir a)"
    using mono1 by (rule path_isdir_mono [rotated])
  then have "path_isdir (cwd w) ?fs (training_dir a)"
    using mono2 by (rule path_isdir_mono [rotated])
  then obtain tmp' where l': "listdir (cwd w1) (root w1) (training_dir a) = Inr tmp'"
    unfolding c1 r1 using listdir_Inr_iff by blast
  from resolve_dirname [OF dirname_model_filename_nonempty r]
  have "path_isdir (cwd w) fs1 (dirname (model_filename a))" .
  then have "path_isdir (cwd w) ?fs (dirname (model_filename a))"
    using mono2 by (rule path_isdir_mono [rotated])
  then have m': "makedirs (cwd w1) (root w1) (dirname (model_filename a)) = (Inr (), root w1)"
    unfolding c1 r1 by (rule makedirs_of_dir)
  from resolve_mono [of fs1 ?fs, OF mono2 r]
  have r': "resolve (cwd w) ?fs (model_filename a) = Inr f" .
  from par have at: "lookup ?fs f = Some (File ?c)" by (simp add: lookup_put_same)
  with r' have o': "open_w (cwd w1) (root w1) (model_filename a) = (Inr f, put ?fs f (File []))"
    unfolding c1 r1 by (simp add: open_w_def)
  from open_write(1) [OF o', of ?c] have "file_write (put ?fs f (File [])) f ?c = ?fs"
    unfolding r1 by (simp add: put_put)
  with train_succeeds [OF l' m' o']
  have t2: "train a w1 = (Inr (), w1\<lparr>root := ?fs,
      trace := trace w1 @ listed a tmp' @ [Open_w (model_filename a), Write ?c]\<rparr>)"
    by simp
  let ?w2 = "w1\<lparr>root := ?fs,
      trace := trace w1 @ listed a tmp' @ [Open_w (model_filename a), Write ?c]\<rparr>"
  have "root ?w2 = root w1" by (simp add: r1)
  moreover have "read_file (cwd ?w2) (root ?w2) (model_dir a @ ''/model.dummy'') = Inr ?c"
    using r' at by (simp add: read_file_def stat_def c1 model_filename_def)
  ultimately show ?thesis using t2 by blast
qed

theorem rerun_idempotent_witness:
  "fst (train args_example w_example) = Inr ()
   \<and> fst (train args_example (snd (train args_example w_example))) = Inr ()
   \<and> root (snd (train args_example (snd (train args_example w_example))))
       = root (snd (train args_example w_example))"
  using rerun_idempotent [OF example_run] example_run by auto

text \<open>
  C7, as the code has it. The listing is the sequence of the entry names of the
  training directory in the order in which the file system enumerates them, and the run
  prints that sequence; \<open>train\<close> does not sort it. A directory that enumerates \<open>a.csv\<close>
  before \<open>b.csv\<close> is listed as \<open>["a.csv", "b.csv"]\<close>.
\<close>

theorem listing_in_enumeration_order:
  "stat (cwd w) (root w) (training_dir a) = Inr (Dir es) \<Longrightarrow>
     listdir (cwd w) (root w) (training_dir a) = Inr (map fst es)
     \<and> Print [Str ''listing training files'', Names (map fst es)]
         \<in> set (trace (snd (train a w)))"
proof -
  assume "stat (cwd w) (root w) (training_dir a) = Inr (Dir es)"
  then have l: "listdir (cwd w) (root w) (training_dir a) = Inr (map fst es)"
    by (simp add: listdir_def)
  from train_trace_listed [OF l] obtain rest where
    "trace (snd (train a w)) = trace w @ listed a (map fst es) @ rest" ..
  with listed_echo [of "map fst es" a] l show ?thesis by simp
qed

theorem listing_in_enumeration_order_witness:
  "stat (cwd w_example) (root w_example) (training_dir args_example)
     = Inr (Dir [(''a.csv'', File ''1,2''), (''b.csv'', File ''3,4'')])
   \<and> listdir (cwd w_example) (root w_example) (training_dir args_example)
     = Inr [''a.csv'', ''b.csv'']"
proof -
  have s: "stat (cwd w_example) (root w_example) (training_dir args_example)
     = Inr (Dir [(''a.csv'', File ''1,2''), (''b.csv'', File ''3,4'')])"
    by code_simp
  from listing_in_enumeration_order [OF s] s show ?thesis by simp
qed

text \<open>
  C7 as the specification states it fails: a directory that holds exactly the files
  \<open>a.csv\<close> and \<open>b.csv\<close> and enumerates \<open>b.csv\<close> first is listed as \<open>["b.csv", "a.csv"]\<close>,
  and that is what the run prints (the third event of its trace).
\<close>

theorem listing_not_sorted:
  "stat [] (Dir [(''data'', Dir [(''b.csv'', File ''3,4''), (''a.csv'', File ''1,2'')])]) ''/data''
     = Inr (Dir [(''b.csv'', File ''3,4''), (''a.csv'', File ''1,2'')])
   \<and> listdir [] (Dir [(''data'', Dir [(''b.csv'', File ''3,4''), (''a.csv'', File ''1,2'')])]) ''/data''
     = Inr [''b.csv'', ''a.csv'']
   \<and> listdir [] (Dir [(''data'', Dir [(''b.csv'', File ''3,4''), (''a.csv'', File ''1,2'')])]) ''/data''
     \<noteq> Inr [''a.csv'', ''b.csv'']
   \<and> trace (snd (train args_example
        \<lparr>root = Dir [(''data'', Dir [(''b.csv'', File ''3,4''), (''a.csv'', File ''1,2'')])],
         cwd = [], trace = []\<rparr>)) ! 2
     = Print [Str ''listing training files'', Names [''b.csv'', ''a.csv'']]"
  by code_simp



text \<open>
  C9, as the code has it. Two runs whose arguments differ only in \<open>checkpoint_dir\<close> end
  alike, leave the same file system and the same working directory, and have the same
  trace but for one event: line 13 prints the whole namespace, \<open>checkpoint_dir\<close>
  included, so the first event of each run shows its own value. Nothing else of the run
  depends on \<open>checkpoint_dir\<close>; no checkpoint is read or written.
\<close>

theorem checkpoint_dir_only_echoed:
  "fst (train (a\<lparr>checkpoint_dir := c\<rparr>) w) = fst (train a w)
   \<and> root (snd (train (a\<lparr>checkpoint_dir := c\<rparr>) w)) = root (snd (train a w))
   \<and> cwd (snd (train (a\<lparr>checkpoint_dir := c\<rparr>) w)) = cwd (snd (train a w))
   \<and> (\<exists>rest.
         trace (snd (train a w)) = trace w @ Print [Str ''args'', Namespace a] # rest
       \<and> trace (snd (train (a\<lparr>checkpoint_dir := c\<rparr>) w))
           = trace w @ Print [Str ''args'', Namespace (a\<lparr>checkpoint_dir := c\<rparr>)] # rest)"
proof -
  let ?a = "a\<lparr>checkpoint_dir := c\<rparr>"
  have td: "training_dir ?a = training_dir a" and mf: "model_filename ?a = model_filename a"
    by (simp_all add: model_filename_def)
  show ?thesis
  proof (cases "listdir (cwd w) (root w) (training_dir a)")
    case (Inl e)
    note t = train_listdir_fails [OF Inl]
    from Inl have "listdir (cwd w) (root w) (training_dir ?a) = Inl e" by (simp only: td)
    note t' = train_listdir_fails [OF this]
    have "\<exists>rest.
         trace (snd (train a w)) = trace w @ Print [Str ''args'', Namespace a] # rest
       \<and> trace (snd (train ?a w)) = trace w @ Print [Str ''args'', Namespace ?a] # rest"
      by (rule exI [of _ "[Listdir (training_dir a)]"]) (simp add: t t')
    then show ?thesis by (simp add: t t')
  next
    case l: (Inr tmp)
    then have l': "listdir (cwd w) (root w) (training_dir ?a) = Inr tmp" by (simp only: td)
    show ?thesis
    proof (cases "makedirs (cwd w) (root w) (dirname (model_filename a))")
      case m: (Pair r1 fs1)
      show ?thesis
      proof (cases r1)
        case (Inl e)
        with m have m1: "makedirs (cwd w) (root w) (dirname (model_filename a)) = (Inl e, fs1)"
          by simp
        then have m1': "makedirs (cwd w) (root w) (dirname (model_filename ?a)) = (Inl e, fs1)"
          by (simp only: mf)
        note t = train_makedirs_fails [OF l m1]
        note t' = train_makedirs_fails [OF l' m1']
        have "\<exists>rest.
           trace (snd (train a w)) = trace w @ Print [Str ''args'', Namespace a] # rest
         \<and> trace (snd (train ?a w)) = trace w @ Print [Str ''args'', Namespace ?a] # rest"
          by (rule exI [of _ "tl (listed a tmp)"])
             (simp add: t t' listed_checkpoint listed_Cons [symmetric])
        then show ?thesis by (simp add: t t')
      next
        case (Inr u1)
        with m have m1: "makedirs (cwd w) (root w) (dirname (model_filename a)) = (Inr u1, fs1)"
          by simp
        then have m1': "makedirs (cwd w) (root w) (dirname (model_filename ?a)) = (Inr u1, fs1)"
          by (simp only: mf)
        show ?thesis
        proof (cases "open_w (cwd w) fs1 (model_filename a)")
          case o: (Pair r2 fs2)
          show ?thesis
          proof (cases r2)
            case (Inl e)
            with o have o1: "open_w (cwd w) fs1 (model_filename a) = (Inl e, fs2)" by simp
            then have o1': "open_w (cwd w) fs1 (model_filename ?a) = (Inl e, fs2)"
              by (simp only: mf)
            note t = train_open_fails [OF l m1 o1]
            note t' = train_open_fails [OF l' m1' o1']
            have "\<exists>rest.
               trace (snd (train a w)) = trace w @ Print [Str ''args'', Namespace a] # rest
             \<and> trace (snd (train ?a w)) = trace w @ Print [Str ''args'', Namespace ?a] # rest"
              by (rule exI [of _ "tl (listed a tmp) @ [Open_w (model_filename a)]"])
                 (simp add: t t' mf listed_checkpoint listed_Cons [symmetric])
            then show ?thesis by (simp add: t t')
          next
            case (Inr f)
            with o have o1: "open_w (cwd w) fs1 (model_filename a) = (Inr f, fs2)" by simp
            then have o1': "open_w (cwd w) fs1 (model_filename ?a) = (Inr f, fs2)"
              by (simp only: mf)
            note t = train_succeeds [OF l m1 o1]
            note t' = train_succeeds [OF l' m1' o1']
            have "\<exists>rest.
               trace (snd (train a w)) = trace w @ Print [Str ''args'', Namespace a] # rest
             \<and> trace (snd (train ?a w)) = trace w @ Print [Str ''args'', Namespace ?a] # rest"
              by (rule exI [of _ "tl (listed a tmp)
                    @ [Open_w (model_filename a), Write ''Dummy model.'']"])
                 (simp add: t t' mf listed_checkpoint listed_Cons [symmetric])
            then show ?thesis by (simp add: t t')
          qed
        qed
      qed
    qed
  qed
qed

text \<open>
  C9 as the specification states it fails: with \<open>/elsewhere\<close> for \<open>checkpoint_dir\<close> the run
  of the scenario prints something else.
\<close>

theorem checkpoint_dir_is_printed:
  "trace (snd (train (args_example\<lparr>checkpoint_dir := ''/elsewhere''\<rparr>) w_example))
     \<noteq> trace (snd (train args_example w_example))"
  by code_simp




end
